theory Spec2Isabelle
  imports Main "HOL-Library.Word"
begin

unbundle bit_operations_syntax

section \<open>Bytes, values and errors\<close>

text \<open>
  A \<^verbatim>\<open>bytes\<close>/\<^verbatim>\<open>bytearray\<close> object is a list of 8-bit words. Python integers are
  unbounded, so field values of the bit and word kinds are \<^typ>\<open>int\<close>.

  A Python float is a double, and the program looks at a stored float only through
  \<^verbatim>\<open>bool\<close>, \<^verbatim>\<open>float\<close> and \<^verbatim>\<open>struct.pack(">f", v)\<close>. A float that is exactly a
  binary32 value is \<open>RealV w\<close>, with \<open>w\<close> its IEEE-754 binary32 bit pattern. Every
  other float is \<open>WideV r\<close>: it is not zero, and \<open>r\<close> is what converting it to binary32
  gives, \<open>Some w\<close> when it rounds to the pattern \<open>w\<close> and \<open>None\<close> when it is finite
  but beyond the binary32 range, where \<^verbatim>\<open>struct.pack\<close> raises OverflowError (as it does
  for \<^verbatim>\<open>1e39\<close>).
\<close>

type_synonym byte = "8 word"
type_synonym buffer = "byte list"

datatype error = IndexError | ValueError | OverflowError | Unmodelled

datatype val = IntV int | RealV "32 word" | WideV "32 word option"

text \<open>Python slicing \<^verbatim>\<open>xs[a:b]\<close> and slice assignment \<^verbatim>\<open>xs[a:b] = new\<close> for
  \<open>0 \<le> a \<le> b\<close>: both bounds are clipped to the length, nothing is raised.\<close>

definition slice_list :: "'a list \<Rightarrow> nat \<Rightarrow> nat \<Rightarrow> 'a list" where
  "slice_list xs a b = take (b - a) (drop a xs)"

definition set_slice :: "'a list \<Rightarrow> nat \<Rightarrow> nat \<Rightarrow> 'a list \<Rightarrow> 'a list" where
  "set_slice xs a b new = take a xs @ new @ drop b xs"

text \<open>\<^verbatim>\<open>int.from_bytes(bs, byteorder="big", signed=s)\<close>.\<close>

definition int_from_bytes :: "buffer \<Rightarrow> bool \<Rightarrow> int" where
  "int_from_bytes bs is_signed =
     (let u = foldl (\<lambda>a b. a * 256 + uint b) 0 bs
      in if is_signed \<and> 2 ^ (8 * length bs - 1) \<le> u then u - 2 ^ (8 * length bs) else u)"

text \<open>\<^verbatim>\<open>v.to_bytes(n, byteorder="big", signed=s)\<close>, which raises OverflowError when
  \<open>v\<close> does not fit.\<close>

fun be_bytes :: "nat \<Rightarrow> int \<Rightarrow> buffer" where
  "be_bytes 0 v = []"
| "be_bytes (Suc n) v = be_bytes n (v div 256) @ [word_of_int v]"

definition int_to_bytes :: "int \<Rightarrow> nat \<Rightarrow> bool \<Rightarrow> error + buffer" where
  "int_to_bytes v n is_signed =
     (if (if is_signed then - (2 ^ (8 * n - 1)) \<le> v \<and> v < 2 ^ (8 * n - 1)
          else 0 \<le> v \<and> v < 2 ^ (8 * n))
      then Inr (be_bytes n v) else Inl OverflowError)"

text \<open>The four bytes of a binary32 pattern and \<^verbatim>\<open>struct.unpack(">f", bs)[0]\<close>, which
  always yields a binary32 value.\<close>

definition pack_f :: "32 word \<Rightarrow> buffer" where
  "pack_f w = be_bytes 4 (uint w)"

definition unpack_f :: "buffer \<Rightarrow> 32 word" where
  "unpack_f bs = word_of_int (int_from_bytes bs False)"

text \<open>\<^verbatim>\<open>struct.pack(">f", float(value))\<close>. \<^verbatim>\<open>float\<close> of an int needs floating-point
  conversion and is reported as \<open>Unmodelled\<close>.\<close>

fun struct_pack :: "val \<Rightarrow> error + buffer" where
  "struct_pack (RealV w) = Inr (pack_f w)"
| "struct_pack (WideV (Some w)) = Inr (pack_f w)"
| "struct_pack (WideV None) = Inl OverflowError"
| "struct_pack (IntV i) = Inl Unmodelled"

section \<open>Fields (fields.py)\<close>

text \<open>
  The three field classes are the constructors of \<open>kind\<close>: \<open>PLCBoolField\<close> carries its
  \<open>bit_offset\<close>, \<open>PLCWordField\<close> its \<open>signed\<close> flag. Offsets are natural numbers.
\<close>

datatype kind = PLCBoolField nat | PLCWordField bool | PLCRealField

record field =
  byte_offset :: nat
  kind :: kind
  default_val :: val
  settable :: bool

fun kind_size :: "kind \<Rightarrow> nat" where
  "kind_size (PLCBoolField b) = 1"
| "kind_size (PLCWordField s) = 2"
| "kind_size PLCRealField = 4"

definition field_size :: "field \<Rightarrow> nat" where
  "field_size f = kind_size (kind f)"

text \<open>\<^verbatim>\<open>bool(value)\<close>: an int is true when non-zero, a float when it is neither
  \<open>+0.0\<close> nor \<open>-0.0\<close>; both zeros are binary32 values.\<close>

fun truthy :: "val \<Rightarrow> bool" where
  "truthy (IntV i) = (i \<noteq> 0)"
| "truthy (RealV w) = (w AND 0x7FFFFFFF \<noteq> 0)"
| "truthy (WideV r) = True"

text \<open>\<open>PLCWordField._clamp\<close> on an integer.\<close>

definition clamp :: "bool \<Rightarrow> int \<Rightarrow> int" where
  "clamp is_signed v =
     (if is_signed then max (min v 32767) (- 32768) else max (min v 0xFFFF) 0)"

text \<open>\<open>coerce\<close> of each class. \<^verbatim>\<open>int(value)\<close> of a float and \<^verbatim>\<open>float(value)\<close> of an
  int need floating-point conversion and are reported as \<open>Unmodelled\<close>.\<close>

fun coerce :: "kind \<Rightarrow> val \<Rightarrow> error + val" where
  "coerce (PLCBoolField b) v = Inr (IntV (if truthy v then 1 else 0))"
| "coerce (PLCWordField s) (IntV i) = Inr (IntV (clamp s i))"
| "coerce (PLCWordField s) (RealV w) = Inl Unmodelled"
| "coerce (PLCWordField s) (WideV r) = Inl Unmodelled"
| "coerce PLCRealField (RealV w) = Inr (RealV w)"
| "coerce PLCRealField (WideV r) = Inr (WideV r)"
| "coerce PLCRealField (IntV i) = Inl Unmodelled"

text \<open>\<open>read\<close> of each class: the decoded value, or \<open>current\<close> when the data is too short.\<close>

fun read_kind :: "kind \<Rightarrow> nat \<Rightarrow> buffer \<Rightarrow> val \<Rightarrow> val" where
  "read_kind (PLCBoolField bit_offset) off data current =
     (if length data \<le> off then current
      else IntV (drop_bit bit_offset (uint (data ! off)) AND 1))"
| "read_kind (PLCWordField is_signed) off data current =
     (let chunk = slice_list data off (off + 2)
      in if length chunk < 2 then current else IntV (int_from_bytes chunk is_signed))"
| "read_kind PLCRealField off data current =
     (let chunk = slice_list data off (off + 4)
      in if length chunk < 4 then current else RealV (unpack_f chunk))"

definition read :: "field \<Rightarrow> buffer \<Rightarrow> val \<Rightarrow> val" where
  "read f data current = read_kind (kind f) (byte_offset f) data current"

text \<open>\<open>write\<close> of each class. A bit field coerces the value to 1 or 0 and updates
  one byte in place: indexing past the end raises IndexError, and storing a number above
  255 into a bytearray raises ValueError. Word and real fields assign a slice; a real
  field packs the stored float without coercing it, and the exception of
  \<^verbatim>\<open>struct.pack\<close> escapes.\<close>

fun write_kind :: "kind \<Rightarrow> nat \<Rightarrow> buffer \<Rightarrow> val \<Rightarrow> error + buffer" where
  "write_kind (PLCBoolField bit_offset) off buf v =
     (let value = (if truthy v then 1 else 0 :: int);
          mask = push_bit bit_offset (1 :: int)
      in if value \<noteq> 0 then
           (if length buf \<le> off then Inl IndexError
            else let r = uint (buf ! off) OR mask
                 in if r < 256 then Inr (buf[off := word_of_int r]) else Inl ValueError)
         else
           (if length buf \<le> off then Inl IndexError
            else Inr (buf[off := word_of_int (uint (buf ! off) AND (NOT mask AND 0xFF))])))"
| "write_kind (PLCWordField is_signed) off buf v =
     (case coerce (PLCWordField is_signed) v of
        Inl e \<Rightarrow> Inl e
      | Inr (IntV i) \<Rightarrow>
          (case int_to_bytes i 2 is_signed of
             Inl e \<Rightarrow> Inl e
           | Inr bs \<Rightarrow> Inr (set_slice buf off (off + 2) bs))
      | Inr other \<Rightarrow> Inl Unmodelled)"
| "write_kind PLCRealField off buf v =
     (case struct_pack v of
        Inl e \<Rightarrow> Inl e
      | Inr bs \<Rightarrow> Inr (set_slice buf off (off + 4) bs))"

definition write_field :: "field \<Rightarrow> buffer \<Rightarrow> val \<Rightarrow> error + buffer" where
  "write_field f buf v = write_kind (kind f) (byte_offset f) buf v"

section \<open>Record instances (data.py)\<close>

text \<open>
  \<open>_fields\<close> is the ordered dictionary the metaclass collects: an association list from
  field name to field, in definition order. \<open>_values\<close> is a dictionary from field name to
  value. An \<^verbatim>\<open>asyncio.Queue(maxsize=100)\<close> only ever receives the instance itself, so a
  queue is represented by the number of items it holds. Timestamps are in microseconds,
  the resolution of \<^verbatim>\<open>datetime\<close>.
\<close>

type_synonym fields = "(string \<times> field) list"

record plc_data =
  field_values :: "string \<rightharpoonup> val"
  subscribers :: "nat list"
  last_connected :: "int option"
  old_is_connected :: bool
  timeouts :: nat

definition IS_CONNECTED_TIMEOUT :: int where
  "IS_CONNECTED_TIMEOUT = 2"

text \<open>The descriptor's \<open>__get__\<close>: \<^verbatim>\<open>instance._values.get(self.name, self.default)\<close>.\<close>

definition getattr :: "(string \<rightharpoonup> val) \<Rightarrow> string \<Rightarrow> field \<Rightarrow> val" where
  "getattr vs name f = (case vs name of Some v \<Rightarrow> v | None \<Rightarrow> default_val f)"

definition buffer_size :: "fields \<Rightarrow> nat" where
  "buffer_size fs =
     (if fs = [] then 0 else Max (set (map (\<lambda>(name, f). byte_offset f + field_size f) fs)))"

text \<open>\<open>q.put_nowait(self)\<close> with QueueFull swallowed, and \<open>notify_subscribers\<close>.\<close>

definition put_nowait :: "nat \<Rightarrow> nat" where
  "put_nowait q = (if q < 100 then q + 1 else q)"

definition notify_subscribers :: "plc_data \<Rightarrow> plc_data" where
  "notify_subscribers d = d\<lparr>subscribers := map put_nowait (subscribers d)\<rparr>"

text \<open>The loop of \<open>from_bytes\<close> over the fields, then the method itself.\<close>

fun read_all :: "fields \<Rightarrow> buffer \<Rightarrow> (string \<rightharpoonup> val) \<Rightarrow> (string \<rightharpoonup> val)" where
  "read_all [] raw vs = vs"
| "read_all ((name, f) # fs) raw vs =
     read_all fs raw (vs(name \<mapsto> read f raw (getattr vs name f)))"

definition from_bytes :: "fields \<Rightarrow> buffer \<Rightarrow> plc_data \<Rightarrow> plc_data" where
  "from_bytes fs raw d =
     notify_subscribers (d\<lparr>field_values := read_all fs raw (field_values d)\<rparr>)"

text \<open>The loop of \<open>to_bytes\<close>, which stops at the first exception, then the method.\<close>

fun write_all :: "fields \<Rightarrow> (string \<rightharpoonup> val) \<Rightarrow> buffer \<Rightarrow> error + buffer" where
  "write_all [] vs buf = Inr buf"
| "write_all ((name, f) # fs) vs buf =
     (case write_field f buf (getattr vs name f) of
        Inl e \<Rightarrow> Inl e
      | Inr buf' \<Rightarrow> write_all fs vs buf')"

definition to_bytes :: "fields \<Rightarrow> plc_data \<Rightarrow> error + buffer" where
  "to_bytes fs d = write_all fs (field_values d) (replicate (buffer_size fs) 0)"

section \<open>The outside world\<close>

text \<open>
  The snap7 client, the TCP probe and the clock are not part of the program. Every call
  to them is appended to a log, and an environment gives the outcome of the call from the
  log up to and including it, so an environment can describe any sequence of outcomes.
  \<open>EnterConnect\<close> is not a call to the outside: it marks each entry into
  \<open>PLCConnection.connect\<close>, so that attempts can be counted.
\<close>

datatype event =
    GetConnected
  | CreateConnection
  | ClientConnect
  | DbRead nat nat nat
  | DbWrite nat nat buffer
  | Now
  | EnterConnect

record env =
  get_connected_result :: "event list \<Rightarrow> bool option"
  create_connection_ok :: "event list \<Rightarrow> bool"
  client_connect_ok :: "event list \<Rightarrow> bool"
  db_read_result :: "event list \<Rightarrow> buffer option"
  db_write_ok :: "event list \<Rightarrow> bool"
  clock :: "event list \<Rightarrow> int"

record world =
  log :: "event list"
  data_store :: plc_data

definition emit :: "event \<Rightarrow> world \<Rightarrow> world" where
  "emit e w = w\<lparr>log := log w @ [e]\<rparr>"

definition datetime_now :: "env \<Rightarrow> world \<Rightarrow> int \<times> world" where
  "datetime_now E w = (let w' = emit Now w in (clock E (log w'), w'))"

text \<open>The property \<open>is_connected\<close>. \<^verbatim>\<open>total_seconds() <= 2\<close> holds exactly when the
  difference is at most 2000000 microseconds.\<close>

definition is_connected :: "env \<Rightarrow> world \<Rightarrow> bool \<times> world" where
  "is_connected E w =
     (case last_connected (data_store w) of
        None \<Rightarrow> (False, w)
      | Some t \<Rightarrow>
          (let (n, w') = datetime_now E w
           in (n - t \<le> IS_CONNECTED_TIMEOUT * 1000000, w')))"

text \<open>The setter of the property \<open>last_connected\<close>. The callback it schedules with
  \<open>call_later\<close> is counted in \<open>timeouts\<close>; its firing is not modelled.\<close>

definition last_connected_setter :: "env \<Rightarrow> int option \<Rightarrow> world \<Rightarrow> world" where
  "last_connected_setter E v w =
     (let (old, w1) = is_connected E w;
          w2 = w1\<lparr>data_store := (data_store w1)\<lparr>old_is_connected := old, last_connected := v\<rparr>\<rparr>;
          (new, w3) = is_connected E w2;
          w4 = (if old \<noteq> new then w3\<lparr>data_store := notify_subscribers (data_store w3)\<rparr> else w3)
      in w4\<lparr>data_store := (data_store w4)\<lparr>timeouts := timeouts (data_store w4) + 1\<rparr>\<rparr>)"

section \<open>The connection (connection.py)\<close>

text \<open>Each method returns its result and the world after it. Only \<open>write\<close> can let an
  exception escape (from \<open>to_bytes\<close>), so only its result is a sum.\<close>

definition connect :: "env \<Rightarrow> world \<Rightarrow> bool \<times> world" where
  "connect E w0 =
     (let w = emit EnterConnect w0;
          w1 = emit GetConnected w
      in case get_connected_result E (log w1) of
           None \<Rightarrow> (False, w1)
         | Some True \<Rightarrow> (True, w1)
         | Some False \<Rightarrow>
             (let w2 = emit CreateConnection w1
              in if \<not> create_connection_ok E (log w2) then (False, w2)
                 else
                   (let w3 = emit ClientConnect w2
                    in if \<not> client_connect_ok E (log w3) then (False, w3)
                       else
                         (let (t, w4) = datetime_now E w3
                          in (True, last_connected_setter E (Some t) w4)))))"

definition read_plc :: "env \<Rightarrow> fields \<Rightarrow> nat \<Rightarrow> world \<Rightarrow> bool \<times> world" where
  "read_plc E fs db_number w0 =
     (let w1 = emit GetConnected w0;
          connected = (case get_connected_result E (log w1) of None \<Rightarrow> False | Some c \<Rightarrow> c);
          (proceed, w2) =
            (if \<not> connected then
               (let (ok, w) = connect E w1
                in if \<not> ok then (False, snd (connect E w)) else (True, w))
             else (True, w1))
      in if \<not> proceed then (False, w2)
         else
           (let byte_amount = buffer_size fs;
                w3 = emit (DbRead db_number 0 byte_amount) w2
            in case db_read_result E (log w3) of
                 None \<Rightarrow> (False, w3)
               | Some data \<Rightarrow>
                   (let w4 = w3\<lparr>data_store := from_bytes fs data (data_store w3)\<rparr>;
                        (t, w5) = datetime_now E w4
                    in (True, last_connected_setter E (Some t) w5))))"

definition write_plc :: "env \<Rightarrow> fields \<Rightarrow> nat \<Rightarrow> world \<Rightarrow> (error + bool) \<times> world" where
  "write_plc E fs db_number w0 =
     (case to_bytes fs (data_store w0) of
        Inl e \<Rightarrow> (Inl e, w0)
      | Inr new_bytes \<Rightarrow>
          (let w1 = emit GetConnected w0
           in case get_connected_result E (log w1) of
                None \<Rightarrow> (Inr False, w1)
              | Some connected \<Rightarrow>
                  (let (proceed, w2) = (if \<not> connected then connect E w1 else (True, w1))
                   in if \<not> proceed then (Inr False, w2)
                      else
                        (let w3 = emit (DbWrite db_number 0 new_bytes) w2
                         in if \<not> db_write_ok E (log w3) then (Inr False, w3)
                            else
                              (let (t, w4) = datetime_now E w3
                               in (Inr True, last_connected_setter E (Some t) w4))))))"

section \<open>Observing a run\<close>

text \<open>Encoding one more field into the outcome of an earlier encoding; an exception of
  the earlier one propagates.\<close>

definition write_then :: "error + buffer \<Rightarrow> field \<Rightarrow> val \<Rightarrow> error + buffer" where
  "write_then r f v = (case r of Inl e \<Rightarrow> Inl e | Inr buf \<Rightarrow> write_field f buf v)"

text \<open>The events a method added to the log, and the two kinds of block access.\<close>

definition new_events :: "world \<Rightarrow> world \<Rightarrow> event list" where
  "new_events w w' = drop (length (log w)) (log w')"

fun is_db_read :: "event \<Rightarrow> bool" where
  "is_db_read (DbRead n a b) = True"
| "is_db_read e = False"

fun is_db_write :: "event \<Rightarrow> bool" where
  "is_db_write (DbWrite n a b) = True"
| "is_db_write e = False"

section \<open>Scenarios\<close>

text \<open>The schema of the example program, an instance with one subscriber and no sync
  timestamp, and five environments: one whose state check always raises, one whose TCP
  probe fails once and then succeeds, one whose state check raises once and then reports
  a connected handle, one where the handle is disconnected and everything succeeds, and
  one where the handle is connected.
  \<open>broken_fields\<close> holds a bit field with bit offset 9, which the constructor accepts.\<close>

definition example_fields :: fields where
  "example_fields =
     [(''temperature'', \<lparr>byte_offset = 0, kind = PLCRealField, default_val = RealV 0, settable = False\<rparr>),
      (''pressure'', \<lparr>byte_offset = 4, kind = PLCWordField False, default_val = IntV 0, settable = False\<rparr>),
      (''status'', \<lparr>byte_offset = 6, kind = PLCBoolField 0, default_val = IntV 0, settable = True\<rparr>)]"

definition fresh_world :: world where
  "fresh_world =
     \<lparr>log = [],
      data_store = \<lparr>field_values = Map.empty, subscribers = [0], last_connected = None,
                    old_is_connected = False, timeouts = 0\<rparr>\<rparr>"

definition env_state_check_raises :: env where
  "env_state_check_raises =
     \<lparr>get_connected_result = (\<lambda>l. None), create_connection_ok = (\<lambda>l. True),
      client_connect_ok = (\<lambda>l. True), db_read_result = (\<lambda>l. Some []),
      db_write_ok = (\<lambda>l. True), clock = (\<lambda>l. int (length l))\<rparr>"

definition env_second_probe_succeeds :: env where
  "env_second_probe_succeeds =
     \<lparr>get_connected_result = (\<lambda>l. Some False),
      create_connection_ok = (\<lambda>l. 2 \<le> count_list l CreateConnection),
      client_connect_ok = (\<lambda>l. True), db_read_result = (\<lambda>l. Some []),
      db_write_ok = (\<lambda>l. True), clock = (\<lambda>l. int (length l))\<rparr>"

definition env_state_check_raises_once :: env where
  "env_state_check_raises_once =
     \<lparr>get_connected_result = (\<lambda>l. if count_list l GetConnected \<le> 1 then None else Some True),
      create_connection_ok = (\<lambda>l. True),
      client_connect_ok = (\<lambda>l. True), db_read_result = (\<lambda>l. Some []),
      db_write_ok = (\<lambda>l. True), clock = (\<lambda>l. int (length l))\<rparr>"


definition env_reachable :: env where
  "env_reachable =
     \<lparr>get_connected_result = (\<lambda>l. Some False), create_connection_ok = (\<lambda>l. True),
      client_connect_ok = (\<lambda>l. True), db_read_result = (\<lambda>l. Some []),
      db_write_ok = (\<lambda>l. True), clock = (\<lambda>l. int (length l))\<rparr>"

definition env_connected :: env where
  "env_connected =
     \<lparr>get_connected_result = (\<lambda>l. Some True), create_connection_ok = (\<lambda>l. True),
      client_connect_ok = (\<lambda>l. True), db_read_result = (\<lambda>l. Some []),
      db_write_ok = (\<lambda>l. True), clock = (\<lambda>l. int (length l))\<rparr>"

definition broken_fields :: fields where
  "broken_fields =
     [(''flag'', \<lparr>byte_offset = 0, kind = PLCBoolField 9, default_val = IntV 1, settable = True\<rparr>)]"

section \<open>Well-formed instances\<close>

text \<open>The conditions under which every field can be encoded: a bit offset is in 0..7,
  a stored value has the type of its field (a bit field is encoded through \<open>bool\<close>, so
  any value will do), and a stored float is within the binary32 range.
  \<open>covered\<close> says that a byte position lies in the range of some field.
  \<open>overflowing_store\<close> holds a float beyond the binary32 range such as \<^verbatim>\<open>1e39\<close>,
  which \<open>coerce\<close> stores as it is; \<open>rounded_store\<close> holds a float such as \<^verbatim>\<open>0.1\<close>,
  which is packed as the nearest binary32 value. \<open>gap_fields\<close> leaves bytes 1 and 2
  uncovered.\<close>

fun encodable :: "kind \<Rightarrow> val \<Rightarrow> bool" where
  "encodable (PLCBoolField b) v = True"
| "encodable (PLCWordField s) (IntV i) = True"
| "encodable (PLCWordField s) (RealV w) = False"
| "encodable (PLCWordField s) (WideV r) = False"
| "encodable PLCRealField (RealV w) = True"
| "encodable PLCRealField (WideV (Some w)) = True"
| "encodable PLCRealField (WideV None) = False"
| "encodable PLCRealField (IntV i) = False"

fun valid_bit_offset :: "kind \<Rightarrow> bool" where
  "valid_bit_offset (PLCBoolField b) = (b < 8)"
| "valid_bit_offset k = True"

definition covered :: "fields \<Rightarrow> nat \<Rightarrow> bool" where
  "covered fs i = list_ex (\<lambda>(name, f). byte_offset f \<le> i \<and> i < byte_offset f + field_size f) fs"

definition well_formed :: "fields \<Rightarrow> (string \<rightharpoonup> val) \<Rightarrow> bool" where
  "well_formed fs vs =
     list_all (\<lambda>(name, f). valid_bit_offset (kind f) \<and> encodable (kind f) (getattr vs name f)) fs"

definition overflowing_store :: plc_data where
  "overflowing_store =
     \<lparr>field_values = [''temperature'' \<mapsto> WideV None],
      subscribers = [], last_connected = None, old_is_connected = False, timeouts = 0\<rparr>"

definition rounded_store :: plc_data where
  "rounded_store =
     \<lparr>field_values = [''temperature'' \<mapsto> WideV (Some 0x3DCCCCCD)],
      subscribers = [], last_connected = None, old_is_connected = False, timeouts = 0\<rparr>"

definition gap_fields :: fields where
  "gap_fields =
     [(''flag'', \<lparr>byte_offset = 0, kind = PLCBoolField 3, default_val = IntV 1, settable = True\<rparr>),
      (''level'', \<lparr>byte_offset = 3, kind = PLCWordField True, default_val = IntV (- 2), settable = False\<rparr>)]"

section \<open>Round-trip conditions\<close>

text \<open>A value is in range for its field when it is 0 or 1 (bit), an integer of the
  16-bit range of the field (word) or a binary32 value (real). Two fields
  overlap when their byte ranges meet, unless both are bit fields with different bit
  offsets. A layout is sound when names are distinct, bit offsets are in 0..7 and no field
  overlaps a later one.\<close>

fun in_range :: "kind \<Rightarrow> val \<Rightarrow> bool" where
  "in_range (PLCBoolField b) v = (v = IntV 0 \<or> v = IntV 1)"
| "in_range (PLCWordField s) (IntV i) =
     (if s then - 32768 \<le> i \<and> i \<le> 32767 else 0 \<le> i \<and> i \<le> 65535)"
| "in_range (PLCWordField s) (RealV w) = False"
| "in_range (PLCWordField s) (WideV r) = False"
| "in_range PLCRealField (RealV w) = True"
| "in_range PLCRealField (WideV r) = False"
| "in_range PLCRealField (IntV i) = False"

definition overlaps :: "field \<Rightarrow> field \<Rightarrow> bool" where
  "overlaps f g =
     (byte_offset f < byte_offset g + field_size g
      \<and> byte_offset g < byte_offset f + field_size f
      \<and> (case (kind f, kind g) of (PLCBoolField a, PLCBoolField b) \<Rightarrow> a = b | _ \<Rightarrow> True))"

fun no_overlap :: "fields \<Rightarrow> bool" where
  "no_overlap [] = True"
| "no_overlap ((name, f) # fs) = (list_all (\<lambda>(m, g). \<not> overlaps f g) fs \<and> no_overlap fs)"

definition all_in_range :: "fields \<Rightarrow> (string \<rightharpoonup> val) \<Rightarrow> bool" where
  "all_in_range fs vs = list_all (\<lambda>(name, f). in_range (kind f) (getattr vs name f)) fs"

definition layout_ok :: "fields \<Rightarrow> bool" where
  "layout_ok fs =
     (distinct (map fst fs) \<and> list_all (\<lambda>(name, f). valid_bit_offset (kind f)) fs \<and> no_overlap fs)"

text \<open>A schema with two bit fields on one byte and an instance of it, and a schema whose
  two word fields lie on the same bytes.\<close>

definition shared_byte_fields :: fields where
  "shared_byte_fields =
     [(''temperature'', \<lparr>byte_offset = 0, kind = PLCRealField, default_val = RealV 0, settable = False\<rparr>),
      (''pressure'', \<lparr>byte_offset = 4, kind = PLCWordField False, default_val = IntV 0, settable = False\<rparr>),
      (''status'', \<lparr>byte_offset = 6, kind = PLCBoolField 0, default_val = IntV 0, settable = True\<rparr>),
      (''alarm'', \<lparr>byte_offset = 6, kind = PLCBoolField 3, default_val = IntV 0, settable = True\<rparr>),
      (''level'', \<lparr>byte_offset = 7, kind = PLCWordField True, default_val = IntV 0, settable = False\<rparr>)]"

definition sample_store :: plc_data where
  "sample_store =
     \<lparr>field_values = [''temperature'' \<mapsto> RealV 0x41BC0000, ''pressure'' \<mapsto> IntV 40000,
                       ''alarm'' \<mapsto> IntV 1, ''level'' \<mapsto> IntV (- 2)],
      subscribers = [], last_connected = None, old_is_connected = False, timeouts = 0\<rparr>"

definition overlapping_fields :: fields where
  "overlapping_fields =
     [(''a'', \<lparr>byte_offset = 0, kind = PLCWordField False, default_val = IntV 0, settable = False\<rparr>),
      (''b'', \<lparr>byte_offset = 0, kind = PLCWordField False, default_val = IntV 0, settable = False\<rparr>)]"

definition overlapping_store :: plc_data where
  "overlapping_store =
     \<lparr>field_values = [''a'' \<mapsto> IntV 1, ''b'' \<mapsto> IntV 2],
      subscribers = [], last_connected = None, old_is_connected = False, timeouts = 0\<rparr>"

section \<open>Field coercion and decoding\<close>

text \<open>
  Claim C3. On an integer input the coercion of a word field clamps: an unsigned field
  yields 65535 for every value above 65535 and 0 for every value below 0, a signed field
  yields 32767 for every value above 32767 and -32768 for every value below -32768, and
  every other value is kept. It never raises and never wraps. In particular 100000
  becomes 65535 and -5 becomes 0 (unsigned), and 40000 becomes 32767 (signed).
\<close>

theorem coerce_word_clamps:
  "coerce (PLCWordField False) (IntV v) =
     Inr (IntV (if 65535 < v then 65535 else if v < 0 then 0 else v))
   \<and> coerce (PLCWordField True) (IntV v) =
     Inr (IntV (if 32767 < v then 32767 else if v < - 32768 then - 32768 else v))
   \<and> coerce (PLCWordField False) (IntV 100000) = Inr (IntV 65535)
   \<and> coerce (PLCWordField False) (IntV (- 5)) = Inr (IntV 0)
   \<and> coerce (PLCWordField True) (IntV 40000) = Inr (IntV 32767)"
  by (simp add: clamp_def)

text \<open>
  Claim C4. For a field of any kind, any current value and any buffer shorter than
  \<open>byte_offset + size\<close> (the size of a bit field is 1), \<open>read\<close> returns the current
  value. \<open>read\<close> has no raising branch: its model is a total function into values.
\<close>

theorem read_short_buffer_keeps_current:
  "length data < byte_offset f + field_size f \<Longrightarrow> read f data current = current"
  by (cases "kind f") (auto simp: read_def field_size_def slice_list_def)

theorem read_short_buffer_keeps_current_witness:
  "read \<lparr>byte_offset = 6, kind = PLCBoolField 0, default_val = IntV 0, settable = True\<rparr>
        [1, 1, 1, 1, 1, 1] (IntV 1) = IntV 1
   \<and> read \<lparr>byte_offset = 4, kind = PLCWordField False, default_val = IntV 0, settable = False\<rparr>
        [1, 1, 1, 1, 1] (IntV 7) = IntV 7
   \<and> read \<lparr>byte_offset = 0, kind = PLCRealField, default_val = RealV 0, settable = False\<rparr>
        [1, 1, 1] (RealV 5) = RealV 5"
  using read_short_buffer_keeps_current
          [of "[1, 1, 1, 1, 1, 1]"
              "\<lparr>byte_offset = 6, kind = PLCBoolField 0, default_val = IntV 0, settable = True\<rparr>"
              "IntV 1"]
        read_short_buffer_keeps_current
          [of "[1, 1, 1, 1, 1]"
              "\<lparr>byte_offset = 4, kind = PLCWordField False, default_val = IntV 0, settable = False\<rparr>"
              "IntV 7"]
        read_short_buffer_keeps_current
          [of "[1, 1, 1]"
              "\<lparr>byte_offset = 0, kind = PLCRealField, default_val = RealV 0, settable = False\<rparr>"
              "RealV 5"]
  by (simp add: field_size_def)

section \<open>Bit fields\<close>

lemma set_bit_in_range: "(uint (b :: byte) OR push_bit k 1 < 256) = (k < 8)"
proof
  assume k: "k < 8"
  have "(2::int) ^ k < 2 ^ 8" using k by (intro power_strict_increasing) auto
  moreover have "uint b < 2 ^ 8" using uint_lt2p [of b] by simp
  ultimately have "uint b OR push_bit k 1 < 2 ^ 8"
    by (intro OR_upper) (auto simp: push_bit_eq_mult)
  then show "uint b OR push_bit k 1 < 256" by simp
next
  assume a: "uint b OR push_bit k 1 < 256"
  show "k < 8"
  proof (rule ccontr)
    assume "\<not> k < 8"
    then have "8 \<le> k" by simp
    have "push_bit k (1::int) \<le> uint b OR push_bit k 1"
      using or_greater_eq [of "uint b" "push_bit k 1"] by (simp add: or.commute)
    moreover have "(2::int) ^ 8 \<le> 2 ^ k" using \<open>8 \<le> k\<close> by (intro power_increasing) auto
    ultimately show False using a by (simp add: push_bit_eq_mult)
  qed
qed

lemma int_255_mask: "(255 :: int) = mask 8"
  by (simp add: mask_eq_exp_minus_1)

lemma bit_set_byte:
  "bit (word_of_int (uint (b :: byte) OR push_bit k 1) :: byte) n = (bit b n \<or> (n = k \<and> n < 8))"
  by (auto simp: bit_word_of_int_iff bit_or_iff bit_push_bit_iff bit_uint_iff bit_1_iff bit_exp_iff dest: bit_imp_le_length)

lemma bit_clear_byte:
  "bit (word_of_int (uint (b :: byte) AND (NOT (push_bit k 1) AND 0xFF)) :: byte) n = (bit b n \<and> n \<noteq> k)"
  by (auto simp: int_255_mask bit_word_of_int_iff bit_and_iff bit_not_iff bit_push_bit_iff bit_uint_iff bit_1_iff bit_exp_iff bit_mask_iff dest: bit_imp_le_length)


lemma write_bool_cases:
  assumes "kind f = PLCBoolField j" "byte_offset f < length buf"
  shows "write_field f buf u =
     (if truthy u \<and> 8 \<le> j then Inl ValueError
      else Inr (buf[byte_offset f :=
             (if truthy u then word_of_int (uint (buf ! byte_offset f) OR push_bit j 1)
              else word_of_int (uint (buf ! byte_offset f) AND (NOT (push_bit j 1) AND 0xFF)))]))"
  using assms set_bit_in_range [of "buf ! byte_offset f" j]
  by (auto simp: write_field_def Let_def simp del: push_bit_of_1)

lemma byte_ops_commute:
  "j \<noteq> k \<Longrightarrow>
   (word_of_int (uint (word_of_int (uint (b :: byte) OR push_bit j 1) :: byte) OR push_bit k 1) :: byte)
     = word_of_int (uint (word_of_int (uint b OR push_bit k 1) :: byte) OR push_bit j 1)"
  "j \<noteq> k \<Longrightarrow>
   (word_of_int (uint (word_of_int (uint (b :: byte) OR push_bit j 1) :: byte)
        AND (NOT (push_bit k 1) AND 0xFF)) :: byte)
     = word_of_int (uint (word_of_int (uint b AND (NOT (push_bit k 1) AND 0xFF)) :: byte) OR push_bit j 1)"
  "j \<noteq> k \<Longrightarrow>
   (word_of_int (uint (word_of_int (uint (b :: byte) AND (NOT (push_bit j 1) AND 0xFF)) :: byte)
        AND (NOT (push_bit k 1) AND 0xFF)) :: byte)
     = word_of_int (uint (word_of_int (uint b AND (NOT (push_bit k 1) AND 0xFF)) :: byte)
        AND (NOT (push_bit j 1) AND 0xFF))"
  by (rule bit_word_eqI; simp only: bit_set_byte bit_clear_byte; blast)+

text \<open>
  Claim C2. Encoding a bit field into a buffer that contains its byte either raises
  ValueError (only when the bit offset is 8 or more and the value is true) or returns a
  buffer of the same length in which every other byte and every other bit of its own byte
  is unchanged. For two bit fields on the same byte with different bit offsets the two
  orders of encoding give the same outcome, which is a buffer when both offsets are below 8.
\<close>

theorem bool_write_isolated:
  assumes "kind f = PLCBoolField j" and "byte_offset f < length buf"
  shows "(case write_field f buf u of
            Inl e \<Rightarrow> e = ValueError \<and> 8 \<le> j \<and> truthy u
          | Inr buf' \<Rightarrow>
              length buf' = length buf
              \<and> (\<forall>i. i \<noteq> byte_offset f \<longrightarrow> buf' ! i = buf ! i)
              \<and> (\<forall>n. n \<noteq> j \<longrightarrow> bit (buf' ! byte_offset f) n = bit (buf ! byte_offset f) n))
         \<and> (\<forall>g k v. kind g = PLCBoolField k \<and> byte_offset g = byte_offset f \<and> k \<noteq> j \<longrightarrow>
               write_then (write_field f buf u) g v = write_then (write_field g buf v) f u
               \<and> (j < 8 \<and> k < 8 \<longrightarrow> (\<exists>b. write_then (write_field f buf u) g v = Inr b)))"
proof (intro conjI allI impI)
  show "case write_field f buf u of
            Inl e \<Rightarrow> e = ValueError \<and> 8 \<le> j \<and> truthy u
          | Inr buf' \<Rightarrow>
              length buf' = length buf
              \<and> (\<forall>i. i \<noteq> byte_offset f \<longrightarrow> buf' ! i = buf ! i)
              \<and> (\<forall>n. n \<noteq> j \<longrightarrow> bit (buf' ! byte_offset f) n = bit (buf ! byte_offset f) n)"
    using assms
    by (simp add: write_bool_cases [OF assms] bit_set_byte bit_clear_byte del: push_bit_of_1)
next
  fix g :: field and k v
  assume g: "kind g = PLCBoolField k \<and> byte_offset g = byte_offset f \<and> k \<noteq> j"
  then have gk: "kind g = PLCBoolField k" and go: "byte_offset g < length buf"
    and off: "byte_offset g = byte_offset f" and ne: "j \<noteq> k"
    using assms by auto
  show "write_then (write_field f buf u) g v = write_then (write_field g buf v) f u"
    using assms(2) ne byte_ops_commute [of j k "buf ! byte_offset f"]
      byte_ops_commute [of k j "buf ! byte_offset f"]
    by (simp add: write_then_def write_bool_cases [OF assms] write_bool_cases [OF gk go]
          write_bool_cases [OF assms(1)] write_bool_cases [OF gk] off del: push_bit_of_1)
  assume "j < 8 \<and> k < 8"
  then show "\<exists>b. write_then (write_field f buf u) g v = Inr b"
    using assms(2)
    by (simp add: write_then_def write_bool_cases [OF assms] write_bool_cases [OF gk] off
          del: push_bit_of_1)
qed

theorem bool_write_isolated_witness:
  "kind \<lparr>byte_offset = 0, kind = PLCBoolField 2, default_val = IntV 0, settable = True\<rparr>
     = PLCBoolField 2
   \<and> byte_offset \<lparr>byte_offset = 0, kind = PLCBoolField 2, default_val = IntV 0, settable = True\<rparr>
     < length [0x21, 0xFF :: byte]
   \<and> write_field \<lparr>byte_offset = 0, kind = PLCBoolField 2, default_val = IntV 0, settable = True\<rparr>
        [0x21, 0xFF] (IntV 1) = Inr [0x25, 0xFF]
   \<and> write_then
        (write_field \<lparr>byte_offset = 0, kind = PLCBoolField 2, default_val = IntV 0, settable = True\<rparr>
           [0x21, 0xFF] (IntV 1))
        \<lparr>byte_offset = 0, kind = PLCBoolField 5, default_val = IntV 0, settable = True\<rparr> (IntV 0)
      = Inr [0x05, 0xFF]
   \<and> write_then
        (write_field \<lparr>byte_offset = 0, kind = PLCBoolField 5, default_val = IntV 0, settable = True\<rparr>
           [0x21, 0xFF] (IntV 0))
        \<lparr>byte_offset = 0, kind = PLCBoolField 2, default_val = IntV 0, settable = True\<rparr> (IntV 1)
      = Inr [0x05, 0xFF]"
  using bool_write_isolated
          [of "\<lparr>byte_offset = 0, kind = PLCBoolField 2, default_val = IntV 0, settable = True\<rparr>"
              2 "[0x21, 0xFF]" "IntV 1"]
  by (simp add: write_field_def write_then_def)

section \<open>Liveness and notification\<close>

lemma log_emit [simp]: "log (emit e w) = log w @ [e]"
  by (simp add: emit_def)

lemma data_store_emit [simp]: "data_store (emit e w) = data_store w"
  by (simp add: emit_def)

lemma is_connected_log:
  "log (snd (is_connected E w)) = log w @ (if last_connected (data_store w) = None then [] else [Now])"
  by (simp add: is_connected_def datetime_now_def Let_def split: option.splits)

lemma is_connected_store [simp]: "data_store (snd (is_connected E w)) = data_store w"
  by (simp add: is_connected_def datetime_now_def Let_def split: option.splits)

lemma is_connected_fst:
  "fst (is_connected E w) =
     (case last_connected (data_store w) of None \<Rightarrow> False
      | Some t \<Rightarrow> clock E (log w @ [Now]) - t \<le> IS_CONNECTED_TIMEOUT * 1000000)"
  by (simp add: is_connected_def datetime_now_def Let_def split: option.splits)

lemma setter_log:
  "\<exists>es. log (last_connected_setter E v w) = log w @ es \<and> set es \<subseteq> {Now}"
  by (auto simp: last_connected_setter_def Let_def split_beta is_connected_log)

lemma setter_last_connected [simp]:
  "last_connected (data_store (last_connected_setter E v w)) = v"
  by (simp add: last_connected_setter_def Let_def split_beta notify_subscribers_def)

lemma setter_field_values [simp]:
  "field_values (data_store (last_connected_setter E v w)) = field_values (data_store w)"
  by (simp add: last_connected_setter_def Let_def split_beta notify_subscribers_def)

lemma connect_log:
  "\<exists>es. log (snd (connect E w)) = log w @ EnterConnect # GetConnected # es
        \<and> set es \<subseteq> {CreateConnection, ClientConnect, Now}"
proof -
  obtain es where "log (last_connected_setter E (Some (clock E (log w @ [EnterConnect, GetConnected, CreateConnection, ClientConnect, Now])))
       (emit Now (emit ClientConnect (emit CreateConnection (emit GetConnected (emit EnterConnect w))))))
     = log (emit Now (emit ClientConnect (emit CreateConnection (emit GetConnected (emit EnterConnect w))))) @ es" "set es \<subseteq> {Now}"
    using setter_log by blast
  then show ?thesis
    by (auto simp: connect_def Let_def datetime_now_def split: option.splits bool.splits)
qed


text \<open>
  Claim C8. \<open>is_connected\<close> is False when no timestamp is stored; when a timestamp
  \<open>t\<close> is stored it is True exactly when the clock reading minus \<open>t\<close> is at most the
  window of 2 seconds. After the setter has stored the current time \<open>t\<close>, the stored
  timestamp is \<open>t\<close> and the instance reports live exactly when the next clock reading is
  within the window of \<open>t\<close>.
\<close>

theorem is_connected_liveness:
  "fst (is_connected E w) =
     (case last_connected (data_store w) of
        None \<Rightarrow> False
      | Some t \<Rightarrow> clock E (log w @ [Now]) - t \<le> IS_CONNECTED_TIMEOUT * 1000000)
   \<and> (let (t, w1) = datetime_now E w;
            w2 = last_connected_setter E (Some t) w1
        in last_connected (data_store w2) = Some t
           \<and> fst (is_connected E w2) = (clock E (log w2 @ [Now]) - t \<le> IS_CONNECTED_TIMEOUT * 1000000))"
  by (simp add: is_connected_fst split_beta Let_def)

text \<open>
  Claim C9. One call of \<open>from_bytes\<close>, whatever the schema and the data, puts exactly one
  item into every subscriber queue that is not full (a full queue drops it); the set of
  subscribers is unchanged and the stored values are those of the complete pass over the
  fields.
\<close>

theorem from_bytes_notifies_once:
  "subscribers (from_bytes fs raw d) = map (\<lambda>q. if q < 100 then q + 1 else q) (subscribers d)
   \<and> length (subscribers (from_bytes fs raw d)) = length (subscribers d)
   \<and> field_values (from_bytes fs raw d) = read_all fs raw (field_values d)"
  by (simp add: from_bytes_def notify_subscribers_def put_nowait_def)

section \<open>Connecting, reading and writing\<close>

lemma example_to_bytes: "to_bytes example_fields (data_store fresh_world) = Inr [0, 0, 0, 0, 0, 0, 0]"
  by code_simp

lemma example_buffer_size: "buffer_size example_fields = 7"
  by (simp add: buffer_size_def example_fields_def field_size_def)

lemma broken_to_bytes: "to_bytes broken_fields (data_store fresh_world) = Inl ValueError"
  by code_simp

text \<open>
  Claim C6 says that \<open>connect\<close> goes on to the TCP probe when the state check raises.
  In an environment where the check raises and the probe would succeed, \<open>connect\<close>
  returns False after the check, and the log holds no probe.
\<close>

theorem connect_proceeds_after_failed_check_counterexample:
  "get_connected_result env_state_check_raises [EnterConnect, GetConnected] = None
   \<and> create_connection_ok env_state_check_raises [EnterConnect, GetConnected, CreateConnection]
   \<and> fst (connect env_state_check_raises fresh_world) = False
   \<and> log (snd (connect env_state_check_raises fresh_world)) = [EnterConnect, GetConnected]"
  by (simp add: connect_def env_state_check_raises_def fresh_world_def)

text \<open>
  Claim C6, amended. When the state check at the start of \<open>connect\<close> raises, the
  exception is caught and \<open>connect\<close> returns False at once: the error does not reach the
  caller, and neither the TCP probe nor the protocol-level connect is attempted.
\<close>

theorem connect_state_check_raises:
  assumes "get_connected_result E (log w @ [EnterConnect, GetConnected]) = None"
  shows "connect E w = (False, w\<lparr>log := log w @ [EnterConnect, GetConnected]\<rparr>)
         \<and> CreateConnection \<notin> set (new_events w (snd (connect E w)))
         \<and> ClientConnect \<notin> set (new_events w (snd (connect E w)))"
  using assms by (simp add: connect_def emit_def new_events_def)

theorem connect_state_check_raises_witness:
  "get_connected_result env_state_check_raises (log fresh_world @ [EnterConnect, GetConnected]) = None
   \<and> connect env_state_check_raises fresh_world
       = (False, fresh_world\<lparr>log := [EnterConnect, GetConnected]\<rparr>)"
  using connect_state_check_raises [of env_state_check_raises fresh_world]
  by (simp add: env_state_check_raises_def fresh_world_def)


lemma quiet_events:
  assumes "set es \<subseteq> {CreateConnection, ClientConnect, Now}"
  shows "count_list es EnterConnect = 0" and "\<not> list_ex is_db_read es" and "\<not> list_ex is_db_write es"
proof -
  have "EnterConnect \<notin> set es" using assms by auto
  then show "count_list es EnterConnect = 0" by (simp add: count_list_0_iff)
  show "\<not> list_ex is_db_read es" "\<not> list_ex is_db_write es"
    using assms by (auto simp: list_ex_iff)
qed

lemma setter_quiet:
  obtains es where "log (last_connected_setter E v w) = log w @ es"
    and "set es \<subseteq> {CreateConnection, ClientConnect, Now}"
  using setter_log [of E v w] by blast

lemma connect_quiet:
  obtains es where "log (snd (connect E w)) = log w @ EnterConnect # GetConnected # es"
    and "set es \<subseteq> {CreateConnection, ClientConnect, Now}"
  using connect_log [of E w] by blast

text \<open>
  Claim C5, amended. When the handle does not report connected at the start of \<open>read\<close>
  (it reports False or the check raises), \<open>read\<close> enters \<open>connect\<close> at most twice. If
  the first attempt fails it makes a second one and returns False without a block read,
  whatever the second attempt returns. If the first attempt succeeds there is no second
  one and the block read of \<open>buffer_size\<close> bytes at offset 0 is issued.
\<close>

theorem read_plc_connect_attempts:
  assumes "get_connected_result E (log w @ [GetConnected]) \<noteq> Some True"
  shows "let first = connect E (emit GetConnected w);
             es = new_events w (snd (read_plc E fs db_number w))
         in count_list es EnterConnect \<le> 2
            \<and> (\<not> fst first \<longrightarrow>
                 read_plc E fs db_number w = (False, snd (connect E (snd first)))
                 \<and> count_list es EnterConnect = 2
                 \<and> \<not> list_ex is_db_read es)
            \<and> (fst first \<longrightarrow>
                 count_list es EnterConnect = 1
                 \<and> DbRead db_number 0 (buffer_size fs) \<in> set es)"
proof -
  define w1 where "w1 = emit GetConnected w"
  obtain ok wa where first: "connect E w1 = (ok, wa)" by (cases "connect E w1")
  obtain es1 where es1: "log wa = log w1 @ EnterConnect # GetConnected # es1"
    and q1: "set es1 \<subseteq> {CreateConnection, ClientConnect, Now}"
    using connect_quiet [of E w1] first by auto
  have nc: "\<not> (case get_connected_result E (log w1) of None \<Rightarrow> False | Some c \<Rightarrow> c)"
    using assms by (auto simp: w1_def split: option.splits)
  show ?thesis
  proof (cases ok)
    case False
    obtain es2 where es2: "log (snd (connect E wa)) = log wa @ EnterConnect # GetConnected # es2"
      and q2: "set es2 \<subseteq> {CreateConnection, ClientConnect, Now}"
      using connect_quiet [of E wa] by auto
    have r: "read_plc E fs db_number w = (False, snd (connect E wa))"
      using nc first False by (simp add: read_plc_def Let_def w1_def [symmetric])
    have ev: "new_events w (snd (connect E wa))
        = GetConnected # EnterConnect # GetConnected # es1 @ EnterConnect # GetConnected # es2"
      by (simp add: new_events_def es2 es1 w1_def)
    show ?thesis
      using False first r quiet_events [OF q1] quiet_events [OF q2]
      by (auto simp: Let_def w1_def [symmetric] ev list_ex_iff)
  next
    case True
    define w3 where "w3 = emit (DbRead db_number 0 (buffer_size fs)) wa"
    have "\<exists>es3. log (snd (read_plc E fs db_number w)) = log w3 @ es3 \<and> set es3 \<subseteq> {CreateConnection, ClientConnect, Now}"
    proof (cases "db_read_result E (log w3)")
      case None
      then have "read_plc E fs db_number w = (False, w3)"
        using nc first True by (simp add: read_plc_def Let_def w1_def [symmetric] w3_def)
      then show ?thesis by simp
    next
      case (Some data)
      define w5 where "w5 = emit Now (w3\<lparr>data_store := from_bytes fs data (data_store w3)\<rparr>)"
      have "read_plc E fs db_number w = (True, last_connected_setter E (Some (clock E (log w5))) w5)"
        using nc first True Some
        by (simp add: read_plc_def Let_def w1_def [symmetric] w3_def datetime_now_def w5_def)
      moreover obtain es where "log (last_connected_setter E (Some (clock E (log w5))) w5) = log w5 @ es"
        "set es \<subseteq> {CreateConnection, ClientConnect, Now}"
        by (rule setter_quiet)
      ultimately show ?thesis
        by (simp add: w5_def emit_def)
    qed
    then obtain es3 where es3: "log (snd (read_plc E fs db_number w)) = log w3 @ es3"
      and q3: "set es3 \<subseteq> {CreateConnection, ClientConnect, Now}" by blast
    have ev: "new_events w (snd (read_plc E fs db_number w))
        = GetConnected # EnterConnect # GetConnected # es1 @ DbRead db_number 0 (buffer_size fs) # es3"
      by (simp add: new_events_def es3 w3_def es1 w1_def)
    show ?thesis
      using True first quiet_events [OF q1] quiet_events [OF q3]
      by (simp add: Let_def w1_def [symmetric] ev)
  qed
qed

text \<open>
  Claim C5 says that the read proceeds when the second connect attempt succeeds. In an
  environment where the first probe fails and the second succeeds, the second
  \<open>connect\<close> returns True, yet \<open>read\<close> returns False and the log ends without a block
  read.
\<close>

theorem read_plc_second_connect_counterexample:
  "get_connected_result env_second_probe_succeeds (log fresh_world @ [GetConnected]) = Some False
   \<and> fst (connect env_second_probe_succeeds (emit GetConnected fresh_world)) = False
   \<and> fst (connect env_second_probe_succeeds
             (snd (connect env_second_probe_succeeds (emit GetConnected fresh_world)))) = True
   \<and> fst (read_plc env_second_probe_succeeds example_fields 1 fresh_world) = False
   \<and> log (snd (read_plc env_second_probe_succeeds example_fields 1 fresh_world))
       = [GetConnected, EnterConnect, GetConnected, CreateConnection,
          EnterConnect, GetConnected, CreateConnection, ClientConnect, Now, Now]"
  by (simp add: read_plc_def connect_def emit_def datetime_now_def last_connected_setter_def
        is_connected_def IS_CONNECTED_TIMEOUT_def notify_subscribers_def
        env_second_probe_succeeds_def fresh_world_def Let_def)

theorem read_plc_connect_attempts_witness:
  "get_connected_result env_second_probe_succeeds (log fresh_world @ [GetConnected]) \<noteq> Some True
   \<and> \<not> fst (connect env_second_probe_succeeds (emit GetConnected fresh_world))
   \<and> count_list (new_events fresh_world
        (snd (read_plc env_second_probe_succeeds example_fields 1 fresh_world))) EnterConnect = 2
   \<and> fst (read_plc env_second_probe_succeeds example_fields 1 fresh_world) = False
   \<and> get_connected_result env_reachable (log fresh_world @ [GetConnected]) \<noteq> Some True
   \<and> fst (connect env_reachable (emit GetConnected fresh_world))
   \<and> new_events fresh_world (snd (read_plc env_reachable example_fields 1 fresh_world))
       = [GetConnected, EnterConnect, GetConnected, CreateConnection, ClientConnect, Now, Now,
          DbRead 1 0 7, Now, Now, Now]
   \<and> fst (read_plc env_reachable example_fields 1 fresh_world) = True"
  using read_plc_connect_attempts [of env_second_probe_succeeds fresh_world example_fields 1]
        read_plc_connect_attempts [of env_reachable fresh_world example_fields 1]
  by (simp add: read_plc_def connect_def emit_def datetime_now_def last_connected_setter_def
        is_connected_def IS_CONNECTED_TIMEOUT_def notify_subscribers_def new_events_def
        from_bytes_def example_buffer_size
        env_second_probe_succeeds_def env_reachable_def fresh_world_def Let_def)


text \<open>
  Claim C7, amended. \<open>write\<close> encodes first: an exception of \<open>to_bytes\<close> escapes before
  any call to the outside. Otherwise its first call is the state check, and it enters
  \<open>connect\<close> at most once. If the state check raises it returns False at once, with no
  connect attempt and no block write. If the handle reports not connected and the single
  connect attempt fails it returns False without a block write. If the handle reports
  connected or the attempt succeeds, it issues the block write of the encoded bytes at
  offset 0; on success it returns True and the stored timestamp is the clock reading taken
  after the write, on failure it returns False.
\<close>

theorem write_plc_behaviour:
  "(\<forall>e. to_bytes fs (data_store w) = Inl e \<longrightarrow> write_plc E fs db_number w = (Inl e, w))
   \<and> (\<forall>bs. to_bytes fs (data_store w) = Inr bs \<longrightarrow>
        (let (r, w') = write_plc E fs db_number w;
             es = new_events w w';
             w1 = emit GetConnected w;
             check = get_connected_result E (log w1);
             attempt = connect E w1;
             w2 = (if check = Some True then w1 else snd attempt)
         in take 1 es = [GetConnected]
            \<and> count_list es EnterConnect \<le> 1
            \<and> (\<forall>e \<in> set es. is_db_write e \<longrightarrow> e = DbWrite db_number 0 bs)
            \<and> (check = None \<longrightarrow> r = Inr False \<and> es = [GetConnected])
            \<and> (check = Some False \<and> \<not> fst attempt \<longrightarrow>
                  r = Inr False \<and> w' = snd attempt \<and> \<not> list_ex is_db_write es)
            \<and> (check = Some True \<or> (check = Some False \<and> fst attempt) \<longrightarrow>
                  DbWrite db_number 0 bs \<in> set es
                  \<and> (if db_write_ok E (log w2 @ [DbWrite db_number 0 bs])
                      then r = Inr True
                           \<and> last_connected (data_store w')
                               = Some (clock E (log w2 @ [DbWrite db_number 0 bs, Now]))
                      else r = Inr False \<and> w' = emit (DbWrite db_number 0 bs) w2))))"
proof (intro conjI allI impI)
  fix e assume "to_bytes fs (data_store w) = Inl e"
  then show "write_plc E fs db_number w = (Inl e, w)" by (simp add: write_plc_def)
next
  fix bs assume bs: "to_bytes fs (data_store w) = Inr bs"
  define w1 where "w1 = emit GetConnected w"
  obtain ok wa where att: "connect E w1 = (ok, wa)" by (cases "connect E w1")
  obtain es1 where es1: "log wa = log w1 @ EnterConnect # GetConnected # es1"
    and q1: "set es1 \<subseteq> {CreateConnection, ClientConnect, Now}"
    using connect_quiet [of E w1] att by auto
  note qe1 = quiet_events [OF q1]
  define finish where "finish w2 =
     (let w3 = emit (DbWrite db_number 0 bs) w2
      in if \<not> db_write_ok E (log w3) then (Inr False :: error + bool, w3)
         else (let (t, w4) = datetime_now E w3 in (Inr True, last_connected_setter E (Some t) w4)))" for w2
  have fin: "\<exists>es. log (snd (finish w2)) = log w2 @ DbWrite db_number 0 bs # es
        \<and> set es \<subseteq> {CreateConnection, ClientConnect, Now}
        \<and> (if db_write_ok E (log w2 @ [DbWrite db_number 0 bs])
            then fst (finish w2) = Inr True
                 \<and> last_connected (data_store (snd (finish w2)))
                     = Some (clock E (log w2 @ [DbWrite db_number 0 bs, Now]))
            else finish w2 = (Inr False, emit (DbWrite db_number 0 bs) w2))" for w2
  proof -
    obtain es where "log (last_connected_setter E (Some (clock E (log w2 @ [DbWrite db_number 0 bs, Now])))
          (emit Now (emit (DbWrite db_number 0 bs) w2)))
       = log (emit Now (emit (DbWrite db_number 0 bs) w2)) @ es"
      "set es \<subseteq> {CreateConnection, ClientConnect, Now}"
      by (rule setter_quiet)
    then show ?thesis
      by (auto simp: finish_def Let_def datetime_now_def)
  qed
  have wr: "write_plc E fs db_number w =
      (case get_connected_result E (log w1) of
         None \<Rightarrow> (Inr False, w1)
       | Some c \<Rightarrow> if c then finish w1 else if ok then finish wa else (Inr False, wa))"
    using att by (simp add: write_plc_def bs Let_def w1_def [symmetric] finish_def split: option.splits)
  show "let (r, w') = write_plc E fs db_number w;
             es = new_events w w';
             w1 = emit GetConnected w;
             check = get_connected_result E (log w1);
             attempt = connect E w1;
             w2 = (if check = Some True then w1 else snd attempt)
         in take 1 es = [GetConnected]
            \<and> count_list es EnterConnect \<le> 1
            \<and> (\<forall>e \<in> set es. is_db_write e \<longrightarrow> e = DbWrite db_number 0 bs)
            \<and> (check = None \<longrightarrow> r = Inr False \<and> es = [GetConnected])
            \<and> (check = Some False \<and> \<not> fst attempt \<longrightarrow>
                  r = Inr False \<and> w' = snd attempt \<and> \<not> list_ex is_db_write es)
            \<and> (check = Some True \<or> (check = Some False \<and> fst attempt) \<longrightarrow>
                  DbWrite db_number 0 bs \<in> set es
                  \<and> (if db_write_ok E (log w2 @ [DbWrite db_number 0 bs])
                      then r = Inr True
                           \<and> last_connected (data_store w')
                               = Some (clock E (log w2 @ [DbWrite db_number 0 bs, Now]))
                      else r = Inr False \<and> w' = emit (DbWrite db_number 0 bs) w2))"
  proof (cases "get_connected_result E (log w1)")
    case None
    then show ?thesis
      by (simp add: wr Let_def w1_def [symmetric] att new_events_def) (simp add: w1_def)
  next
    case (Some c)
    show ?thesis
    proof (cases c)
      case True
      obtain es where es: "log (snd (finish w1)) = log w1 @ DbWrite db_number 0 bs # es"
        and q: "set es \<subseteq> {CreateConnection, ClientConnect, Now}"
        and r: "if db_write_ok E (log w1 @ [DbWrite db_number 0 bs])
            then fst (finish w1) = Inr True
                 \<and> last_connected (data_store (snd (finish w1)))
                     = Some (clock E (log w1 @ [DbWrite db_number 0 bs, Now]))
            else finish w1 = (Inr False, emit (DbWrite db_number 0 bs) w1)"
        using fin [of w1] by blast
      have ev: "new_events w (snd (finish w1)) = GetConnected # DbWrite db_number 0 bs # es"
        by (simp add: new_events_def es) (simp add: w1_def)
      show ?thesis
        using Some True r quiet_events [OF q] q
        by (auto simp: wr Let_def w1_def [symmetric] att split_beta ev list_ex_iff)
    next
      case False
      show ?thesis
      proof (cases ok)
        case ok: True
        obtain es where es: "log (snd (finish wa)) = log wa @ DbWrite db_number 0 bs # es"
          and q: "set es \<subseteq> {CreateConnection, ClientConnect, Now}"
          and r: "if db_write_ok E (log wa @ [DbWrite db_number 0 bs])
              then fst (finish wa) = Inr True
                   \<and> last_connected (data_store (snd (finish wa)))
                       = Some (clock E (log wa @ [DbWrite db_number 0 bs, Now]))
              else finish wa = (Inr False, emit (DbWrite db_number 0 bs) wa)"
          using fin [of wa] by blast
        have ev: "new_events w (snd (finish wa))
            = GetConnected # EnterConnect # GetConnected # es1 @ DbWrite db_number 0 bs # es"
          by (simp add: new_events_def es es1) (simp add: w1_def)
        show ?thesis
          using Some False ok r quiet_events [OF q] qe1 q q1
          by (auto simp: wr Let_def w1_def [symmetric] att split_beta ev list_ex_iff)
      next
        case nok: False
        have ev: "new_events w wa = GetConnected # EnterConnect # GetConnected # es1"
          by (simp add: new_events_def es1) (simp add: w1_def)
        show ?thesis
          using Some False nok qe1 q1
          by (auto simp: wr Let_def w1_def [symmetric] att split_beta ev list_ex_iff)
      qed
    qed
  qed
qed

text \<open>
  Claim C7 says that \<open>write\<close> checks connectivity the way \<open>read\<close> does, apart from the
  number of connect attempts. In an environment whose state check raises once and then
  reports a connected handle, \<open>read\<close> makes a connect attempt and succeeds, while
  \<open>write\<close> makes none and returns False.
\<close>

theorem write_plc_state_check_counterexample:
  "to_bytes example_fields (data_store fresh_world) = Inr [0, 0, 0, 0, 0, 0, 0]
   \<and> get_connected_result env_state_check_raises_once (log fresh_world @ [GetConnected]) = None
   \<and> fst (read_plc env_state_check_raises_once example_fields 1 fresh_world) = True
   \<and> count_list (log (snd (read_plc env_state_check_raises_once example_fields 1 fresh_world)))
        EnterConnect = 1
   \<and> fst (write_plc env_state_check_raises_once example_fields 1 fresh_world) = Inr False
   \<and> log (snd (write_plc env_state_check_raises_once example_fields 1 fresh_world)) = [GetConnected]"
  by (simp add: example_to_bytes write_plc_def)
     (simp add: read_plc_def connect_def emit_def datetime_now_def last_connected_setter_def
        is_connected_def IS_CONNECTED_TIMEOUT_def notify_subscribers_def from_bytes_def
        env_state_check_raises_once_def fresh_world_def Let_def)

theorem write_plc_behaviour_witness:
  "to_bytes example_fields (data_store fresh_world) = Inr [0, 0, 0, 0, 0, 0, 0]
   \<and> get_connected_result env_reachable (log (emit GetConnected fresh_world)) = Some False
   \<and> fst (connect env_reachable (emit GetConnected fresh_world))
   \<and> fst (write_plc env_reachable example_fields 1 fresh_world) = Inr True
   \<and> new_events fresh_world (snd (write_plc env_reachable example_fields 1 fresh_world))
       = [GetConnected, EnterConnect, GetConnected, CreateConnection, ClientConnect, Now, Now,
          DbWrite 1 0 [0, 0, 0, 0, 0, 0, 0], Now, Now, Now]
   \<and> last_connected (data_store (snd (write_plc env_reachable example_fields 1 fresh_world)))
       = Some 9
   \<and> get_connected_result env_state_check_raises (log (emit GetConnected fresh_world)) = None
   \<and> write_plc env_state_check_raises example_fields 1 fresh_world
       = (Inr False, emit GetConnected fresh_world)
   \<and> to_bytes broken_fields (data_store fresh_world) = Inl ValueError
   \<and> write_plc env_reachable broken_fields 1 fresh_world = (Inl ValueError, fresh_world)
   \<and> get_connected_result env_connected (log (emit GetConnected fresh_world)) = Some True
   \<and> fst (write_plc env_connected example_fields 1 fresh_world) = Inr True
   \<and> new_events fresh_world (snd (write_plc env_connected example_fields 1 fresh_world))
       = [GetConnected, DbWrite 1 0 [0, 0, 0, 0, 0, 0, 0], Now, Now]
   \<and> get_connected_result env_second_probe_succeeds (log (emit GetConnected fresh_world))
       = Some False
   \<and> \<not> fst (connect env_second_probe_succeeds (emit GetConnected fresh_world))
   \<and> fst (write_plc env_second_probe_succeeds example_fields 1 fresh_world) = Inr False
   \<and> new_events fresh_world (snd (write_plc env_second_probe_succeeds example_fields 1 fresh_world))
       = [GetConnected, EnterConnect, GetConnected, CreateConnection]"
  using write_plc_behaviour [of example_fields fresh_world env_reachable 1]
        write_plc_behaviour [of example_fields fresh_world env_state_check_raises 1]
        write_plc_behaviour [of broken_fields fresh_world env_reachable 1]
        write_plc_behaviour [of example_fields fresh_world env_connected 1]
        write_plc_behaviour [of example_fields fresh_world env_second_probe_succeeds 1]
  by (simp add: example_to_bytes broken_to_bytes write_plc_def)
     (simp add: connect_def emit_def datetime_now_def last_connected_setter_def
        is_connected_def IS_CONNECTED_TIMEOUT_def notify_subscribers_def new_events_def
        env_reachable_def env_state_check_raises_def env_connected_def
        env_second_probe_succeeds_def fresh_world_def Let_def)

section \<open>Encoding a whole record\<close>

lemma gap_to_bytes: "to_bytes gap_fields (data_store fresh_world) = Inr [8, 0, 0, 0xFF, 0xFE]"
  by code_simp

lemma length_be_bytes [simp]: "length (be_bytes n v) = n"
  by (induction n arbitrary: v) auto

lemma clamp_fits: "int_to_bytes (clamp s i) 2 s = Inr (be_bytes 2 (clamp s i))"
  by (simp add: int_to_bytes_def clamp_def min_def max_def)

lemma set_slice_length:
  "a + length new \<le> length xs \<Longrightarrow> length (set_slice xs a (a + length new) new) = length xs"
  by (simp add: set_slice_def)

lemma set_slice_nth_outside:
  "a + length new \<le> length xs \<Longrightarrow> \<not> (a \<le> i \<and> i < a + length new) \<Longrightarrow>
   set_slice xs a (a + length new) new ! i = xs ! i"
  by (auto simp: set_slice_def nth_append)

lemma write_field_frame:
  assumes "valid_bit_offset (kind f)" "encodable (kind f) v"
    and "byte_offset f + field_size f \<le> length buf"
  shows "\<exists>buf'. write_field f buf v = Inr buf' \<and> length buf' = length buf
           \<and> (\<forall>i. \<not> (byte_offset f \<le> i \<and> i < byte_offset f + field_size f) \<longrightarrow> buf' ! i = buf ! i)"
proof (cases "kind f")
  case (PLCBoolField b)
  then have "byte_offset f < length buf" "b < 8" using assms by (auto simp: field_size_def)
  then show ?thesis
    using PLCBoolField
    by (simp add: write_bool_cases [OF PLCBoolField] field_size_def nth_list_update)
next
  case (PLCWordField s)
  then obtain i where v: "v = IntV i" using assms(2) by (cases v) auto
  have "byte_offset f + length (be_bytes 2 (clamp s i)) \<le> length buf"
    using assms(3) PLCWordField by (simp add: field_size_def)
  then show ?thesis
    using PLCWordField v set_slice_length [of "byte_offset f" "be_bytes 2 (clamp s i)" buf]
      set_slice_nth_outside [of "byte_offset f" "be_bytes 2 (clamp s i)" buf]
    by (simp add: write_field_def clamp_fits field_size_def)
next
  case PLCRealField
  then obtain w where v: "struct_pack v = Inr (pack_f w)"
    using assms(2) by (cases v rule: struct_pack.cases) auto
  have "byte_offset f + length (pack_f w) \<le> length buf"
    using assms(3) PLCRealField by (simp add: field_size_def pack_f_def)
  then show ?thesis
    using PLCRealField v set_slice_length [of "byte_offset f" "pack_f w" buf]
      set_slice_nth_outside [of "byte_offset f" "pack_f w" buf]
    by (simp add: write_field_def field_size_def pack_f_def)
qed

lemma write_field_shape:
  assumes "write_field f buf v = Inr buf'"
    and "byte_offset f + field_size f \<le> length buf"
  shows "length buf' = length buf
         \<and> (\<forall>i. \<not> (byte_offset f \<le> i \<and> i < byte_offset f + field_size f) \<longrightarrow> buf' ! i = buf ! i)"
proof (cases "kind f")
  case (PLCBoolField b)
  then have "byte_offset f < length buf" using assms(2) by (simp add: field_size_def)
  then show ?thesis
    using assms(1) PLCBoolField
    by (auto simp: write_bool_cases [OF PLCBoolField] field_size_def nth_list_update
          split: if_splits)
next
  case (PLCWordField s)
  then obtain i where "buf' = set_slice buf (byte_offset f) (byte_offset f + 2) (be_bytes 2 (clamp s i))"
    using assms(1) clamp_fits [of s]
    by (cases v) (auto simp: write_field_def)
  moreover have "byte_offset f + length (be_bytes 2 (clamp s i)) \<le> length buf"
    using assms(2) PLCWordField by (simp add: field_size_def)
  ultimately show ?thesis
    using PLCWordField set_slice_length [of "byte_offset f" "be_bytes 2 (clamp s i)" buf]
      set_slice_nth_outside [of "byte_offset f" "be_bytes 2 (clamp s i)" buf]
    by (simp add: field_size_def)
next
  case PLCRealField
  then obtain w where "buf' = set_slice buf (byte_offset f) (byte_offset f + 4) (pack_f w)"
    using assms(1)
    by (cases v rule: struct_pack.cases) (auto simp: write_field_def)
  moreover have "byte_offset f + length (pack_f w) \<le> length buf"
    using assms(2) PLCRealField by (simp add: field_size_def pack_f_def)
  ultimately show ?thesis
    using PLCRealField set_slice_length [of "byte_offset f" "pack_f w" buf]
      set_slice_nth_outside [of "byte_offset f" "pack_f w" buf]
    by (simp add: field_size_def pack_f_def)
qed

lemma write_all_shape:
  assumes "write_all fs vs buf = Inr buf'"
    and "\<forall>(name, f) \<in> set fs. byte_offset f + field_size f \<le> length buf"
  shows "length buf' = length buf \<and> (\<forall>i. \<not> covered fs i \<longrightarrow> buf' ! i = buf ! i)"
  using assms
proof (induction fs arbitrary: buf)
  case Nil
  then show ?case by simp
next
  case (Cons nf fs)
  obtain name f where nf: "nf = (name, f)" by (cases nf)
  obtain b1 where b1: "write_field f buf (getattr vs name f) = Inr b1"
    and rest: "write_all fs vs b1 = Inr buf'"
    using Cons.prems(1) by (auto simp: nf split: sum.splits)
  have s1: "length b1 = length buf"
    and fr1: "\<And>i. \<not> (byte_offset f \<le> i \<and> i < byte_offset f + field_size f) \<Longrightarrow> b1 ! i = buf ! i"
    using write_field_shape [OF b1] Cons.prems(2) by (auto simp: nf)
  have "\<forall>(name, f) \<in> set fs. byte_offset f + field_size f \<le> length b1"
    using Cons.prems(2) s1 by auto
  from Cons.IH [OF rest this]
  have s2: "length buf' = length b1" and fr2: "\<And>i. \<not> covered fs i \<Longrightarrow> buf' ! i = b1 ! i"
    by auto
  show ?case
    using s1 s2 fr1 fr2 by (auto simp: nf covered_def)
qed

lemma write_all_frame:
  assumes "well_formed fs vs"
    and "\<forall>(name, f) \<in> set fs. byte_offset f + field_size f \<le> length buf"
  shows "\<exists>buf'. write_all fs vs buf = Inr buf' \<and> length buf' = length buf
           \<and> (\<forall>i. \<not> covered fs i \<longrightarrow> buf' ! i = buf ! i)"
  using assms
proof (induction fs arbitrary: buf)
  case Nil
  then show ?case by simp
next
  case (Cons nf fs)
  obtain name f where nf: "nf = (name, f)" by (cases nf)
  obtain b1 where b1: "write_field f buf (getattr vs name f) = Inr b1" "length b1 = length buf"
    and fr1: "\<And>i. \<not> (byte_offset f \<le> i \<and> i < byte_offset f + field_size f) \<Longrightarrow> b1 ! i = buf ! i"
    using write_field_frame [of f "getattr vs name f" buf] Cons.prems
    by (auto simp: nf well_formed_def)
  have "well_formed fs vs" using Cons.prems(1) by (simp add: well_formed_def)
  moreover have "\<forall>(name, f) \<in> set fs. byte_offset f + field_size f \<le> length b1"
    using Cons.prems(2) b1(2) by auto
  ultimately obtain b2 where b2: "write_all fs vs b1 = Inr b2" "length b2 = length b1"
    and fr2: "\<And>i. \<not> covered fs i \<Longrightarrow> b2 ! i = b1 ! i"
    using Cons.IH [of b1] by blast
  show ?case
    using b1 b2 fr1 fr2 by (auto simp: nf covered_def)
qed

lemma buffer_size_bound:
  "(name, f) \<in> set fs \<Longrightarrow> byte_offset f + field_size f \<le> buffer_size fs"
  by (auto simp: buffer_size_def intro!: Max_ge image_eqI [where x = "(name, f)"])

lemma overflowing_to_bytes: "to_bytes example_fields overflowing_store = Inl OverflowError"
  by code_simp

lemma rounded_to_bytes:
  "to_bytes example_fields rounded_store = Inr [0x3D, 0xCC, 0xCC, 0xCD, 0, 0, 0]"
  by code_simp

text \<open>
  Claim C10 is stated for every instance and every combination of stored values. A bit
  field with bit offset 9 holding a true value makes \<open>to_bytes\<close> raise ValueError, and a
  real field holding a float beyond the binary32 range makes it raise OverflowError: in
  both cases no buffer is returned.
\<close>

theorem to_bytes_raises_counterexample:
  "getattr (field_values (data_store fresh_world)) ''flag''
      \<lparr>byte_offset = 0, kind = PLCBoolField 9, default_val = IntV 1, settable = True\<rparr> = IntV 1
   \<and> to_bytes broken_fields (data_store fresh_world) = Inl ValueError
   \<and> field_values overflowing_store ''temperature'' = Some (WideV None)
   \<and> to_bytes example_fields overflowing_store = Inl OverflowError"
  by (simp add: overflowing_to_bytes broken_to_bytes)
     (simp add: getattr_def fresh_world_def overflowing_store_def)

text \<open>
  Claim C10, amended. For every instance, whenever \<open>to_bytes\<close> returns a buffer, its
  length is exactly \<open>buffer_size\<close> and every byte position that no field covers is zero:
  encoding never grows or shrinks the buffer. It does return a buffer when every bit
  offset is in 0..7, every stored value has the type of its field and every stored float
  is within the binary32 range.
\<close>

theorem to_bytes_length_and_padding:
  "(well_formed fs (field_values d) \<longrightarrow> (\<exists>buf. to_bytes fs d = Inr buf))
   \<and> (\<forall>buf. to_bytes fs d = Inr buf \<longrightarrow>
          length buf = buffer_size fs
          \<and> (\<forall>i < length buf. \<not> covered fs i \<longrightarrow> buf ! i = 0))"
proof -
  have bounds: "\<forall>(name, f) \<in> set fs.
      byte_offset f + field_size f \<le> length (replicate (buffer_size fs) (0 :: byte))"
    using buffer_size_bound by auto
  have "\<exists>buf. to_bytes fs d = Inr buf" if "well_formed fs (field_values d)"
    using write_all_frame [OF that bounds] by (auto simp: to_bytes_def)
  moreover have "length buf = buffer_size fs \<and> (\<forall>i < length buf. \<not> covered fs i \<longrightarrow> buf ! i = 0)"
    if "to_bytes fs d = Inr buf" for buf
    using write_all_shape [OF that [unfolded to_bytes_def] bounds] by auto
  ultimately show ?thesis by blast
qed

theorem to_bytes_length_and_padding_witness:
  "well_formed gap_fields (field_values (data_store fresh_world))
   \<and> to_bytes gap_fields (data_store fresh_world) = Inr [8, 0, 0, 0xFF, 0xFE]
   \<and> length [8, 0, 0, 0xFF, 0xFE :: byte] = buffer_size gap_fields
   \<and> \<not> covered gap_fields 1 \<and> \<not> covered gap_fields 2
   \<and> well_formed example_fields (field_values rounded_store)
   \<and> to_bytes example_fields rounded_store = Inr [0x3D, 0xCC, 0xCC, 0xCD, 0, 0, 0]
   \<and> length [0x3D, 0xCC, 0xCC, 0xCD, 0, 0, 0 :: byte] = buffer_size example_fields"
  using to_bytes_length_and_padding [of gap_fields "data_store fresh_world"]
        to_bytes_length_and_padding [of example_fields rounded_store]
  by (simp add: gap_to_bytes rounded_to_bytes)
     (simp add: well_formed_def covered_def gap_fields_def fresh_world_def getattr_def
        example_fields_def rounded_store_def buffer_size_def field_size_def)

section \<open>Round trip\<close>

lemma uint_byte_of_int: "uint (word_of_int v :: byte) = v mod 256"
  by (simp add: uint_word_of_int take_bit_eq_mod)

lemma foldl_be_bytes:
  "foldl (\<lambda>a b. a * 256 + uint b) 0 (be_bytes n v) = v mod 256 ^ n"
proof (induction n arbitrary: v)
  case 0
  then show ?case by simp
next
  case (Suc n)
  have "v mod (256 * 256 ^ n) = 256 * (v div 256 mod 256 ^ n) + v mod 256"
    by (rule zmod_zmult2_eq) simp
  then show ?case by (simp add: Suc uint_byte_of_int)
qed

lemma int_from_bytes_be_bytes:
  "int_from_bytes (be_bytes n v) s =
     (let u = v mod 256 ^ n in if s \<and> 2 ^ (8 * n - 1) \<le> u then u - 2 ^ (8 * n) else u)"
  by (simp add: int_from_bytes_def foldl_be_bytes Let_def)


lemma word_round_trip:
  assumes "in_range (PLCWordField s) (IntV i)"
  shows "int_from_bytes (be_bytes 2 i) s = i"
proof -
  have pow: "(256 :: int) ^ 2 = 65536" "(2 :: int) ^ (8 * 2 - 1) = 32768" "(2 :: int) ^ (8 * 2) = 65536"
    by simp_all
  have eq: "int_from_bytes (be_bytes 2 i) s =
      (if s \<and> 32768 \<le> i mod 65536 then i mod 65536 - 65536 else i mod 65536)"
    unfolding int_from_bytes_be_bytes Let_def pow ..
  show ?thesis
  proof (cases s)
    case True
    then have r: "- 32768 \<le> i" "i \<le> 32767" using assms by auto
    show ?thesis
    proof (cases "0 \<le> i")
      case True
      then have "i mod 65536 = i" using r by (intro mod_pos_pos_trivial) auto
      then show ?thesis using r eq by simp
    next
      case False
      have "(i + 65536) mod 65536 = i + 65536" using r False by (intro mod_pos_pos_trivial) auto
      moreover have "(i + 65536) mod 65536 = i mod 65536" by (rule mod_add_self2)
      ultimately have "i mod 65536 = i + 65536" by simp
      then show ?thesis using r False \<open>s\<close> eq by simp
    qed
  next
    case False
    then have "0 \<le> i" "i \<le> 65535" using assms by auto
    then have "i mod 65536 = i" by (intro mod_pos_pos_trivial) auto
    then show ?thesis using False eq by simp
  qed
qed

lemma real_round_trip: "unpack_f (pack_f w) = w"
proof -
  have "uint w < 2 ^ 32" using uint_lt2p [of w] by simp
  then have "uint w < 256 ^ 4" by simp
  then have "uint w mod 256 ^ 4 = uint w" by (intro mod_pos_pos_trivial) auto
  then show ?thesis
    unfolding unpack_f_def pack_f_def int_from_bytes_be_bytes Let_def by simp
qed

lemma slice_set_slice:
  "a \<le> length xs \<Longrightarrow> slice_list (set_slice xs a (a + length new) new) a (a + length new) = new"
  by (simp add: slice_list_def set_slice_def)

lemma length_pack_f [simp]: "length (pack_f w) = 4"
  by (simp add: pack_f_def)


lemma read_bit: "drop_bit k (uint (b :: byte)) AND 1 = (if bit b k then 1 else 0)"
  by (auto simp: and_one_eq bit_uint_iff mod_2_eq_odd simp flip: bit_iff_odd_drop_bit
        dest: bit_imp_le_length)

lemma in_range_encodable: "in_range k v \<Longrightarrow> encodable k v"
  by (cases k; cases v) auto

lemma read_own_write:
  assumes "valid_bit_offset (kind f)" and "in_range (kind f) v"
    and "byte_offset f + field_size f \<le> length buf"
    and "write_field f buf v = Inr buf'"
  shows "read f buf' cur = v"
proof (cases "kind f")
  case (PLCBoolField b)
  have b: "b < 8" and off: "byte_offset f < length buf"
    using assms(1,3) PLCBoolField by (auto simp: field_size_def)
  have v: "v = IntV 0 \<or> v = IntV 1" using assms(2) PLCBoolField by simp
  have "buf' = buf[byte_offset f :=
             (if truthy v then word_of_int (uint (buf ! byte_offset f) OR push_bit b 1)
              else word_of_int (uint (buf ! byte_offset f) AND (NOT (push_bit b 1) AND 0xFF)))]"
    using assms(4) b unfolding write_bool_cases [OF PLCBoolField off] by simp
  then show ?thesis
    using v b off
    by (auto simp: read_def PLCBoolField read_bit bit_set_byte bit_clear_byte simp del: push_bit_of_1)
next
  case (PLCWordField s)
  then obtain i where v: "v = IntV i" and r: "in_range (PLCWordField s) (IntV i)"
    using assms(2) by (cases v) auto
  have c: "clamp s i = i" using r by (auto simp: clamp_def split: if_splits)
  have "buf' = set_slice buf (byte_offset f) (byte_offset f + length (be_bytes 2 i)) (be_bytes 2 i)"
    using assms(4) clamp_fits [of s i] by (simp add: write_field_def PLCWordField v c)
  moreover have "byte_offset f \<le> length buf" using assms(3) by simp
  ultimately have "slice_list buf' (byte_offset f) (byte_offset f + 2) = be_bytes 2 i"
    using slice_set_slice [of "byte_offset f" buf "be_bytes 2 i"] by simp
  then show ?thesis
    by (simp add: read_def PLCWordField v word_round_trip [OF r])
next
  case PLCRealField
  then obtain w where v: "v = RealV w" using assms(2) by (cases v) auto
  have "buf' = set_slice buf (byte_offset f) (byte_offset f + length (pack_f w)) (pack_f w)"
    using assms(4) by (simp add: write_field_def PLCRealField v)
  moreover have "byte_offset f \<le> length buf" using assms(3) by simp
  ultimately have "slice_list buf' (byte_offset f) (byte_offset f + 4) = pack_f w"
    using slice_set_slice [of "byte_offset f" buf "pack_f w"] by simp
  then show ?thesis
    by (simp add: read_def PLCRealField v real_round_trip)
qed


lemma read_cong:
  assumes "length buf' = length buf"
    and "\<And>i. byte_offset f \<le> i \<Longrightarrow> i < byte_offset f + field_size f \<Longrightarrow> buf' ! i = buf ! i"
  shows "read f buf' cur = read f buf cur"
proof -
  have sl: "slice_list buf' (byte_offset f) (byte_offset f + n) = slice_list buf (byte_offset f) (byte_offset f + n)"
    if "n \<le> field_size f" for n
    using assms that by (auto simp: slice_list_def list_eq_iff_nth_eq)
  show ?thesis
  proof (cases "kind f")
    case (PLCBoolField b)
    then show ?thesis using assms by (simp add: read_def field_size_def)
  next
    case (PLCWordField s)
    then show ?thesis using sl [of 2] by (simp add: read_def field_size_def)
  next
    case PLCRealField
    then show ?thesis using sl [of 4] by (simp add: read_def field_size_def)
  qed
qed

lemma read_frame:
  assumes no: "\<not> overlaps f g"
    and g: "valid_bit_offset (kind g)" "encodable (kind g) v" "byte_offset g + field_size g \<le> length buf"
    and w: "write_field g buf v = Inr buf'"
  shows "read f buf' cur = read f buf cur"
proof -
  from write_field_frame [OF g] w
  have len: "length buf' = length buf"
    and out: "\<And>i. \<not> (byte_offset g \<le> i \<and> i < byte_offset g + field_size g) \<Longrightarrow> buf' ! i = buf ! i"
    by auto
  show ?thesis
  proof (cases "byte_offset f < byte_offset g + field_size g \<and> byte_offset g < byte_offset f + field_size f")
    case False
    show ?thesis
    proof (rule read_cong [OF len])
      fix i assume "byte_offset f \<le> i" "i < byte_offset f + field_size f"
      then show "buf' ! i = buf ! i" using False by (intro out) auto
    qed
  next
    case True
    then obtain a b where kf: "kind f = PLCBoolField a" and kg: "kind g = PLCBoolField b" and ne: "a \<noteq> b"
      using no by (auto simp: overlaps_def split: kind.splits)
    have off: "byte_offset f = byte_offset g" "byte_offset g < length buf"
      using True g(3) by (auto simp: field_size_def kf kg)
    have b: "b < 8" using g(1) kg by simp
    have "buf' = buf[byte_offset g :=
             (if truthy v then word_of_int (uint (buf ! byte_offset g) OR push_bit b 1)
              else word_of_int (uint (buf ! byte_offset g) AND (NOT (push_bit b 1) AND 0xFF)))]"
      using w b unfolding write_bool_cases [OF kg off(2)] by simp
    then show ?thesis
      using off ne
      by (auto simp: read_def kf read_bit bit_set_byte bit_clear_byte simp del: push_bit_of_1)
  qed
qed

lemma write_all_read_frame:
  assumes "list_all (\<lambda>(m, g). \<not> overlaps f g) gs" and "well_formed gs vs"
    and "\<forall>(m, g) \<in> set gs. byte_offset g + field_size g \<le> length buf"
    and "write_all gs vs buf = Inr buf'"
  shows "read f buf' cur = read f buf cur"
  using assms
proof (induction gs arbitrary: buf)
  case Nil
  then show ?case by simp
next
  case (Cons mg gs)
  obtain m g where mg: "mg = (m, g)" by (cases mg)
  have g: "valid_bit_offset (kind g)" "encodable (kind g) (getattr vs m g)"
    "byte_offset g + field_size g \<le> length buf" "\<not> overlaps f g"
    using Cons.prems by (auto simp: mg well_formed_def)
  obtain b1 where b1: "write_field g buf (getattr vs m g) = Inr b1" "length b1 = length buf"
    using write_field_frame [OF g(1-3)] by blast
  have rest: "write_all gs vs b1 = Inr buf'" using Cons.prems(4) b1 by (simp add: mg)
  have "read f buf' cur = read f b1 cur"
    using Cons.prems b1(2) by (intro Cons.IH [OF _ _ _ rest]) (auto simp: well_formed_def)
  also have "\<dots> = read f buf cur" by (rule read_frame [OF g(4) g(1-3) b1(1)])
  finally show ?case .
qed

lemma write_all_read_back:
  assumes "no_overlap fs" and "list_all (\<lambda>(name, f). valid_bit_offset (kind f)) fs"
    and "all_in_range fs vs"
    and "\<forall>(name, f) \<in> set fs. byte_offset f + field_size f \<le> length buf"
    and "write_all fs vs buf = Inr buf'"
    and "(name, f) \<in> set fs"
  shows "read f buf' cur = getattr vs name f"
  using assms
proof (induction fs arbitrary: buf)
  case Nil
  then show ?case by simp
next
  case (Cons mg fs)
  obtain m g where mg: "mg = (m, g)" by (cases mg)
  have g: "valid_bit_offset (kind g)" "in_range (kind g) (getattr vs m g)"
    "byte_offset g + field_size g \<le> length buf"
    using Cons.prems by (auto simp: mg all_in_range_def)
  have wf: "well_formed fs vs"
    using Cons.prems(2,3) by (auto simp: well_formed_def all_in_range_def list_all_iff intro: in_range_encodable)
  obtain b1 where b1: "write_field g buf (getattr vs m g) = Inr b1" "length b1 = length buf"
    using write_field_frame [OF g(1) in_range_encodable [OF g(2)] g(3)] by blast
  have rest: "write_all fs vs b1 = Inr buf'" using Cons.prems(5) b1 by (simp add: mg)
  have bounds: "\<forall>(name, f) \<in> set fs. byte_offset f + field_size f \<le> length b1"
    using Cons.prems(4) b1(2) by auto
  show ?case
  proof (cases "(name, f) = (m, g)")
    case True
    have "read g buf' cur = read g b1 cur"
      using Cons.prems(1) by (intro write_all_read_frame [OF _ wf bounds rest]) (simp add: mg)
    also have "\<dots> = getattr vs m g" by (rule read_own_write [OF g b1(1)])
    finally show ?thesis using True by simp
  next
    case False
    then have "(name, f) \<in> set fs" using Cons.prems(6) by (auto simp: mg)
    then show ?thesis
      using Cons.prems(1-3) by (intro Cons.IH [OF _ _ _ bounds rest]) (auto simp: mg all_in_range_def)
  qed
qed

lemma read_all_other: "name \<notin> fst ` set fs \<Longrightarrow> read_all fs raw vs name = vs name"
  by (induction fs arbitrary: vs) (auto simp: rev_image_eqI)

lemma read_all_field:
  "distinct (map fst fs) \<Longrightarrow> (name, f) \<in> set fs \<Longrightarrow>
   read_all fs raw vs name = Some (read f raw (getattr vs name f))"
proof (induction fs arbitrary: vs)
  case Nil
  then show ?case by simp
next
  case (Cons mg fs)
  obtain m g where mg: "mg = (m, g)" by (cases mg)
  show ?case
  proof (cases "(name, f) = (m, g)")
    case True
    then show ?thesis using Cons.prems(1) by (simp add: mg read_all_other)
  next
    case False
    then have mem: "(name, f) \<in> set fs" using Cons.prems(2) by (auto simp: mg)
    then have "name \<noteq> m" using Cons.prems(1) by (auto simp: mg rev_image_eqI)
    then have same: "getattr (vs(m \<mapsto> read g raw (getattr vs m g))) name f = getattr vs name f"
      by (simp add: getattr_def)
    have "read_all fs raw (vs(m \<mapsto> read g raw (getattr vs m g))) name
        = Some (read f raw (getattr (vs(m \<mapsto> read g raw (getattr vs m g))) name f))"
      using Cons.prems(1) mem by (intro Cons.IH) simp_all
    then show ?thesis
      unfolding same by (simp add: mg)
  qed
qed

text \<open>
  Claim C1, amended. For a schema with distinct names, bit offsets in 0..7 and no two
  overlapping fields, and an instance whose field values are all in range, \<open>to_bytes\<close>
  returns a buffer, and after \<open>from_bytes\<close> on that buffer every field has the value it
  had before. An in-range real value is a binary32 value, so it comes back exactly.
\<close>

theorem round_trip:
  assumes "layout_ok fs" and "all_in_range fs (field_values d)"
  shows "\<exists>buf. to_bytes fs d = Inr buf
           \<and> (\<forall>(name, f) \<in> set fs.
                 getattr (field_values (from_bytes fs buf d)) name f = getattr (field_values d) name f)"
proof -
  have lay: "distinct (map fst fs)" "list_all (\<lambda>(name, f). valid_bit_offset (kind f)) fs" "no_overlap fs"
    using assms(1) by (simp_all add: layout_ok_def)
  have wf: "well_formed fs (field_values d)"
    using lay(2) assms(2) by (auto simp: well_formed_def all_in_range_def list_all_iff intro: in_range_encodable)
  have bounds: "\<forall>(name, f) \<in> set fs. byte_offset f + field_size f \<le> length (replicate (buffer_size fs) (0 :: byte))"
    using buffer_size_bound by auto
  obtain buf where buf: "write_all fs (field_values d) (replicate (buffer_size fs) 0) = Inr buf"
    using write_all_frame [OF wf bounds] by blast
  have "getattr (field_values (from_bytes fs buf d)) name f = getattr (field_values d) name f"
    if mem: "(name, f) \<in> set fs" for name f
  proof -
    have "field_values (from_bytes fs buf d) name
        = Some (read f buf (getattr (field_values d) name f))"
      using read_all_field [OF lay(1) mem] by (simp add: from_bytes_def notify_subscribers_def)
    moreover have "read f buf (getattr (field_values d) name f) = getattr (field_values d) name f"
      by (rule write_all_read_back [OF lay(3) lay(2) assms(2) bounds buf mem])
    ultimately show ?thesis by (simp add: getattr_def)
  qed
  then show ?thesis using buf by (auto simp: to_bytes_def)
qed


lemma sample_layout: "layout_ok shared_byte_fields"
  by code_simp

lemma sample_in_range: "all_in_range shared_byte_fields (field_values sample_store)"
  by code_simp

lemma sample_to_bytes:
  "to_bytes shared_byte_fields sample_store = Inr [0x41, 0xBC, 0, 0, 0x9C, 0x40, 0x08, 0xFF, 0xFE]"
  by code_simp

theorem round_trip_witness:
  "layout_ok shared_byte_fields
   \<and> all_in_range shared_byte_fields (field_values sample_store)
   \<and> to_bytes shared_byte_fields sample_store = Inr [0x41, 0xBC, 0, 0, 0x9C, 0x40, 0x08, 0xFF, 0xFE]
   \<and> getattr (field_values (from_bytes shared_byte_fields
          [0x41, 0xBC, 0, 0, 0x9C, 0x40, 0x08, 0xFF, 0xFE] sample_store)) ''alarm''
          \<lparr>byte_offset = 6, kind = PLCBoolField 3, default_val = IntV 0, settable = True\<rparr>
       = IntV 1
   \<and> getattr (field_values (from_bytes shared_byte_fields
          [0x41, 0xBC, 0, 0, 0x9C, 0x40, 0x08, 0xFF, 0xFE] sample_store)) ''status''
          \<lparr>byte_offset = 6, kind = PLCBoolField 0, default_val = IntV 0, settable = True\<rparr>
       = IntV 0"
proof -
  obtain buf where buf: "to_bytes shared_byte_fields sample_store = Inr buf"
    and same: "\<forall>(name, f) \<in> set shared_byte_fields.
        getattr (field_values (from_bytes shared_byte_fields buf sample_store)) name f
          = getattr (field_values sample_store) name f"
    using round_trip [OF sample_layout sample_in_range] by blast
  have b: "buf = [0x41, 0xBC, 0, 0, 0x9C, 0x40, 0x08, 0xFF, 0xFE]"
    using buf by (simp add: sample_to_bytes)
  have "getattr (field_values (from_bytes shared_byte_fields buf sample_store)) ''alarm''
          \<lparr>byte_offset = 6, kind = PLCBoolField 3, default_val = IntV 0, settable = True\<rparr>
        = getattr (field_values sample_store) ''alarm''
          \<lparr>byte_offset = 6, kind = PLCBoolField 3, default_val = IntV 0, settable = True\<rparr>"
    and "getattr (field_values (from_bytes shared_byte_fields buf sample_store)) ''status''
          \<lparr>byte_offset = 6, kind = PLCBoolField 0, default_val = IntV 0, settable = True\<rparr>
        = getattr (field_values sample_store) ''status''
          \<lparr>byte_offset = 6, kind = PLCBoolField 0, default_val = IntV 0, settable = True\<rparr>"
    using same by (simp_all add: shared_byte_fields_def)
  then show ?thesis
    unfolding b
    by (simp add: sample_layout sample_in_range sample_to_bytes)
       (simp add: getattr_def sample_store_def)
qed

text \<open>
  Claim C1 is stated for every schema. With two unsigned word fields \<open>a\<close> and \<open>b\<close> at
  byte offset 0 holding 1 and 2, both in range, \<open>to_bytes\<close> returns the bytes of 2 and
  \<open>from_bytes\<close> stores 2 in \<open>a\<close>.
\<close>

theorem round_trip_overlap_counterexample:
  "all_in_range overlapping_fields (field_values overlapping_store)
   \<and> to_bytes overlapping_fields overlapping_store = Inr [0, 2]
   \<and> field_values overlapping_store ''a'' = Some (IntV 1)
   \<and> field_values (from_bytes overlapping_fields [0, 2] overlapping_store) ''a'' = Some (IntV 2)"
  by code_simp

end
